theory Spec2Isabelle
  imports Main "HOL-Library.Word"
begin

section \<open>libutil/types.hh: BackedStringView and ChunkedVector\<close>

text \<open>
  The header defines two small utilities. \<open>BackedStringView\<close> wraps a
  \<open>std::variant<std::string, std::string_view>\<close>; \<open>ChunkedVector<T, ChunkSize>\<close> is an
  append-only vector of vectors with a 32-bit element counter.

  Everything that ends a C++ call other than by returning is a value of \<open>error\<close>:
  \<open>abort()\<close>, the exception \<open>std::bad_variant_access\<close> of \<open>std::get\<close>, and the
  reads the standard leaves undefined (\<open>back()\<close> of an empty vector, \<open>operator[]\<close> of a
  vector beyond its size, division by a zero \<open>ChunkSize\<close>). Running out of memory is not
  modelled.
\<close>

datatype error = Abort | BadVariantAccess | UndefinedBehaviour

subsection \<open>BackedStringView\<close>

text \<open>
  A \<open>std::string\<close> is the sequence of its bytes. A \<open>std::string_view\<close> is modelled by
  the bytes it refers to; the storage behind it, and so its lifetime, is outside the model.
  The variant keeps the source's order of alternatives.
\<close>

type_synonym std_string = string
type_synonym string_view = string

datatype variant = Alt_string std_string | Alt_string_view string_view

text \<open>\<open>std::holds_alternative<std::string>\<close> and the two instances of \<open>std::get\<close>,
  which throw when the other alternative is active.\<close>

fun holds_alternative_string :: "variant \<Rightarrow> bool" where
  "holds_alternative_string (Alt_string s) = True"
| "holds_alternative_string (Alt_string_view sv) = False"

fun get_string :: "variant \<Rightarrow> error + std_string" where
  "get_string (Alt_string s) = Inr s"
| "get_string (Alt_string_view sv) = Inl BadVariantAccess"

fun get_string_view :: "variant \<Rightarrow> error + string_view" where
  "get_string_view (Alt_string s) = Inl BadVariantAccess"
| "get_string_view (Alt_string_view sv) = Inr sv"

record BackedStringView =
  data :: variant

text \<open>The three constructors: from an rvalue \<open>std::string\<close>, from a
  \<open>std::string_view\<close>, and from a character array, whose view ends before the first
  NUL byte (\<open>std::string_view(const char *)\<close>; an array without one is read past its
  end).\<close>

definition BackedStringView_string :: "std_string \<Rightarrow> BackedStringView" where
  "BackedStringView_string s = \<lparr>data = Alt_string s\<rparr>"

definition BackedStringView_view :: "string_view \<Rightarrow> BackedStringView" where
  "BackedStringView_view sv = \<lparr>data = Alt_string_view sv\<rparr>"

definition BackedStringView_lit :: "string \<Rightarrow> error + BackedStringView" where
  "BackedStringView_lit lit =
     (if CHR 0x00 \<in> set lit
      then Inr \<lparr>data = Alt_string_view (takeWhile (\<lambda>c. c \<noteq> CHR 0x00) lit)\<rparr>
      else Inl UndefinedBehaviour)"

definition isOwned :: "BackedStringView \<Rightarrow> bool" where
  "isOwned v = holds_alternative_string (data v)"

text \<open>\<open>toOwned\<close> is rvalue-qualified: it consumes the object, so the model returns the
  string only. In the borrowed case \<open>std::string(sv)\<close> copies the viewed bytes.\<close>

definition toOwned :: "BackedStringView \<Rightarrow> error + std_string" where
  "toOwned v = (if isOwned v then get_string (data v) else get_string_view (data v))"

text \<open>\<open>operator*\<close>, a const member: in the owned case the string converts to a view of
  its own bytes.\<close>

definition deref :: "BackedStringView \<Rightarrow> error + string_view" where
  "deref v = (if isOwned v then get_string (data v) else get_string_view (data v))"

subsection \<open>ChunkedVector\<close>

text \<open>
  \<open>uint32_t\<close> is a 32-bit word. \<open>size_t\<close>, the type of the template parameter
  \<open>ChunkSize\<close> and of \<open>std::vector::size()\<close>, is taken to be 64 bits wide (LP64).
  The template parameter is the first argument of every operation. The member
  \<open>size_\<close> is the field \<open>size_m\<close>, and the member function \<open>size()\<close> is
  \<open>size_cv\<close>.
\<close>

type_synonym uint32_t = "32 word"
type_synonym size_t = "64 word"

record 'a ChunkedVector =
  size_m :: uint32_t
  chunks :: "'a list list"

text \<open>The members' default initialisers: \<open>size_ = 0\<close> and an empty vector of chunks.\<close>

definition default_init :: "'a ChunkedVector" where
  "default_init = \<lparr>size_m = 0, chunks = []\<rparr>"

text \<open>
  \<open>addChunk\<close>: the comparison \<open>size_ >= std::numeric_limits<uint32_t>::max() - ChunkSize\<close>
  is carried out in \<open>size_t\<close>, to which both \<open>uint32_t\<close> operands are converted, and the
  subtraction wraps there. The returned reference is the last chunk of the result.
\<close>

definition addChunk :: "size_t \<Rightarrow> 'a ChunkedVector \<Rightarrow> error + 'a ChunkedVector" where
  "addChunk ChunkSize v =
     (if (ucast (- 1 :: uint32_t) :: size_t) - ChunkSize \<le> (ucast (size_m v) :: size_t)
      then Inl Abort
      else Inr (v\<lparr>chunks := chunks v @ [[]]\<rparr>))"

text \<open>The constructor; \<open>reserve\<close> only sets the capacity of the outer vector.\<close>

definition ChunkedVector_new :: "size_t \<Rightarrow> uint32_t \<Rightarrow> error + 'a ChunkedVector" where
  "ChunkedVector_new ChunkSize reserve = addChunk ChunkSize default_init"

definition size_cv :: "'a ChunkedVector \<Rightarrow> uint32_t" where
  "size_cv v = size_m v"

text \<open>
  \<open>add\<close>: the counter is incremented first (\<open>size_++\<close> wraps at \<open>2^32\<close>), then the
  tail chunk is chosen, then the element is appended to it. The result is the new state,
  the reference to the stored element, modelled by its position (chunk, offset), and the
  index.
\<close>

definition add ::
  "size_t \<Rightarrow> 'a \<Rightarrow> 'a ChunkedVector \<Rightarrow> error + ('a ChunkedVector \<times> (nat \<times> nat) \<times> uint32_t)" where
  "add ChunkSize val v =
     (let idx = size_m v;
          v1 = v\<lparr>size_m := size_m v + 1\<rparr>
      in if chunks v1 = [] then Inl UndefinedBehaviour
         else case (if length (last (chunks v1)) < unat ChunkSize then Inr v1
                    else addChunk ChunkSize v1) of
                Inl e \<Rightarrow> Inl e
              | Inr v2 \<Rightarrow>
                  Inr (v2\<lparr>chunks := butlast (chunks v2) @ [last (chunks v2) @ [val]]\<rparr>,
                       (length (chunks v2) - 1, length (last (chunks v2))),
                       idx))"

text \<open>\<open>operator[]\<close>: \<open>idx\<close> is converted to \<open>size_t\<close> for the division and the
  remainder; neither vector access is bounds-checked.\<close>

definition get :: "size_t \<Rightarrow> 'a ChunkedVector \<Rightarrow> uint32_t \<Rightarrow> error + 'a" where
  "get ChunkSize v idx =
     (if ChunkSize = 0 then Inl UndefinedBehaviour
      else let c = unat ((ucast idx :: size_t) div ChunkSize);
               off = unat ((ucast idx :: size_t) mod ChunkSize)
           in if c < length (chunks v) \<and> off < length (chunks v ! c)
              then Inr (chunks v ! c ! off)
              else Inl UndefinedBehaviour)"

text \<open>\<open>forEach\<close>: the visitor is called for its effect, so it is a transformer of the
  caller's state \<open>'s\<close>; the two nested range-for loops are two nested folds.\<close>

definition forEach :: "('a \<Rightarrow> 's \<Rightarrow> 's) \<Rightarrow> 'a ChunkedVector \<Rightarrow> 's \<Rightarrow> 's" where
  "forEach fn v s = fold (\<lambda>c. fold fn c) (chunks v) s"

text \<open>A sequence of \<open>add\<close> calls, one per element of the list, in order. It ends at the
  first call that does not return.\<close>

fun add_all :: "size_t \<Rightarrow> 'a list \<Rightarrow> 'a ChunkedVector \<Rightarrow> error + 'a ChunkedVector" where
  "add_all ChunkSize [] v = Inr v"
| "add_all ChunkSize (x # xs) v =
     (case add ChunkSize x v of
        Inl e \<Rightarrow> Inl e
      | Inr (v', r, i) \<Rightarrow> add_all ChunkSize xs v')"


subsection \<open>Predicates on the state of a ChunkedVector\<close>

text \<open>The ceiling of \<open>n / c\<close> on natural numbers.\<close>

definition ceil_div :: "nat \<Rightarrow> nat \<Rightarrow> nat" where
  "ceil_div n c = (n + c - 1) div c"

text \<open>
  The shape of the vector of chunks for a chunk size \<open>C\<close>: there is a chunk, every chunk
  before the tail holds exactly \<open>C\<close> elements, the tail holds at most \<open>C\<close>, and a tail that
  is not the first chunk holds an element.
\<close>

definition chunks_wf :: "nat \<Rightarrow> 'a list list \<Rightarrow> bool" where
  "chunks_wf C cs \<longleftrightarrow>
     cs \<noteq> [] \<and> (\<forall>c \<in> set (butlast cs). length c = C) \<and> length (last cs) \<le> C
     \<and> (butlast cs \<noteq> [] \<longrightarrow> last cs \<noteq> [])"

text \<open>
  The invariant that the unchecked accesses of \<open>add\<close> and \<open>operator[]\<close> rely on: the
  vector of chunks is not empty, every chunk but the last holds exactly \<open>ChunkSize\<close>
  elements, the last at most \<open>ChunkSize\<close>, and the chunk lengths add up to \<open>size_\<close>.
\<close>

definition cv_invariant :: "size_t \<Rightarrow> 'a ChunkedVector \<Rightarrow> bool" where
  "cv_invariant ChunkSize v \<longleftrightarrow>
     chunks v \<noteq> []
     \<and> (\<forall>c \<in> set (butlast (chunks v)). length c = unat ChunkSize)
     \<and> length (last (chunks v)) \<le> unat ChunkSize
     \<and> sum_list (map length (chunks v)) = unat (size_m v)"

text \<open>
  The counter stays below \<open>2^32 - 1\<close> even when the tail chunk is filled up: the number
  of stored elements plus the room left in the tail chunk is at most \<open>2^32 - 2\<close>.
\<close>

definition fits :: "size_t \<Rightarrow> 'a ChunkedVector \<Rightarrow> bool" where
  "fits ChunkSize v \<longleftrightarrow>
     unat (size_m v) + (unat ChunkSize - length (last (chunks v))) \<le> 4294967294"

section \<open>BackedStringView: the three queries\<close>

lemma BackedStringView_cases:
  obtains (Owned) buf where "v = BackedStringView_string buf"
        | (Borrowed) sv where "v = BackedStringView_view sv"
proof (cases "data v")
  case (Alt_string buf)
  then have "v = BackedStringView_string buf"
    by (simp add: BackedStringView_string_def)
  then show thesis by (rule Owned)
next
  case (Alt_string_view sv)
  then have "v = BackedStringView_view sv"
    by (simp add: BackedStringView_view_def)
  then show thesis by (rule Borrowed)
qed

text \<open>
  C7. \<open>toOwned\<close> returns a string whose bytes are those that \<open>operator*\<close> exposes, for
  every BackedStringView; neither \<open>std::get\<close> throws. For a view constructed from the
  buffer \<open>buf\<close> the result is \<open>buf\<close>, for a view constructed from the slice \<open>s\<close> it is a
  string with the bytes of \<open>s\<close>. The function reads the slice only.
\<close>

theorem toOwned_bytes:
  "toOwned v = deref v
   \<and> (\<exists>bytes. toOwned v = Inr bytes)
   \<and> toOwned (BackedStringView_string buf) = Inr buf
   \<and> toOwned (BackedStringView_view s) = Inr s"
  by (cases v rule: BackedStringView_cases)
     (simp_all add: toOwned_def deref_def isOwned_def BackedStringView_string_def
        BackedStringView_view_def)

text \<open>
  C8. \<open>operator*\<close> returns the contents of the active alternative, whichever it is: it
  never throws, a view constructed from the slice \<open>s\<close> yields \<open>s\<close>, and a view
  constructed from the owned buffer \<open>buf\<close> yields the bytes of \<open>buf\<close>. It is a const
  member, a function of the object alone.
\<close>

theorem deref_contents:
  "deref v = Inr (case data v of Alt_string buf \<Rightarrow> buf | Alt_string_view sv \<Rightarrow> sv)
   \<and> deref (BackedStringView_view s) = Inr s
   \<and> deref (BackedStringView_string buf) = Inr buf"
  by (cases v rule: BackedStringView_cases)
     (simp_all add: deref_def isOwned_def BackedStringView_string_def
        BackedStringView_view_def)

text \<open>
  C9. \<open>isOwned\<close> is true exactly when the object holds the \<open>std::string\<close>
  alternative: true for a view constructed from an owned buffer, false for a view
  constructed from a slice. It is a const member, a function of the object alone.
\<close>

theorem isOwned_iff:
  "(isOwned v = (\<exists>buf. v = BackedStringView_string buf))
   \<and> isOwned (BackedStringView_string buf)
   \<and> \<not> isOwned (BackedStringView_view s)"
proof -
  have "isOwned v = (\<exists>b. v = BackedStringView_string b)"
    by (cases v rule: BackedStringView_cases)
       (auto simp: isOwned_def BackedStringView_string_def BackedStringView_view_def)
  then show ?thesis
    by (simp add: isOwned_def BackedStringView_string_def BackedStringView_view_def)
qed

section \<open>ChunkedVector: auxiliary facts\<close>

subsection \<open>The guard of addChunk on natural numbers\<close>

lemma max32: "(ucast (- 1 :: uint32_t) :: size_t) = 4294967295"
  by (simp add: unsigned_minus_1_eq_mask mask_eq_exp_minus_1)

lemma unat_ucast32: "unat (ucast (s::uint32_t) :: size_t) = unat s"
  by (simp add: unsigned_ucast_eq take_bit_nat_eq_self_iff unsigned_less[THEN less_trans])

lemma unat32_bound: "unat (s::uint32_t) < 4294967296"
  using unsigned_less[of s, where 'a=nat] by simp

lemma unat64_bound: "unat (s::size_t) < 18446744073709551616"
  using unsigned_less[of s, where 'a=nat] by simp

lemma guard_iff:
  "((ucast (- 1 :: uint32_t) :: size_t) - C \<le> (ucast (s::uint32_t) :: size_t)) \<longleftrightarrow>
   (unat C < 4294967296 \<and> 4294967295 \<le> unat s + unat C)"
  using unat32_bound[of s] unat64_bound[of C]
  apply (simp add: max32 word_le_nat_alt unat_ucast32 unat_sub_if')
  apply arith
  done

lemma addChunk_eq:
  "addChunk C v =
     (if unat C < 4294967296 \<and> 4294967295 \<le> unat (size_m v) + unat C then Inl Abort
      else Inr (v\<lparr>chunks := chunks v @ [[]]\<rparr>))"
  by (simp add: addChunk_def guard_iff)

lemma add_eq:
  "add C x v =
     (if chunks v = [] then Inl UndefinedBehaviour
      else if length (last (chunks v)) < unat C then
        Inr (v\<lparr>size_m := size_m v + 1,
                chunks := butlast (chunks v) @ [last (chunks v) @ [x]]\<rparr>,
             (length (chunks v) - 1, length (last (chunks v))), size_m v)
      else if unat C < 4294967296 \<and> 4294967295 \<le> unat (size_m v + 1) + unat C then Inl Abort
      else Inr (v\<lparr>size_m := size_m v + 1, chunks := chunks v @ [[x]]\<rparr>,
                (length (chunks v), 0), size_m v))"
  by (simp add: add_def addChunk_eq Let_def)

subsection \<open>One call, and a sequence of calls\<close>

lemma new_Inr:
  assumes "ChunkedVector_new C r = Inr v"
  shows "v = \<lparr>size_m = 0, chunks = [[]]\<rparr>" and "unat C < 4294967296 \<Longrightarrow> unat C \<le> 4294967294"
  using assms
  by (auto simp: ChunkedVector_new_def addChunk_eq default_init_def split: if_splits)

lemma add_Inr:
  assumes "add C x v = Inr (v', r, i)"
  shows "chunks v \<noteq> []" and "i = size_m v" and "size_m v' = size_m v + 1"
    and "concat (chunks v') = concat (chunks v) @ [x]"
    and "chunks v' \<noteq> []"
proof -
  show ne: "chunks v \<noteq> []" using assms by (auto simp: add_eq split: if_splits)
  show "i = size_m v" "size_m v' = size_m v + 1" "chunks v' \<noteq> []"
    using assms by (auto simp: add_eq split: if_splits)
  have "concat (butlast (chunks v)) @ last (chunks v) = concat (chunks v)"
    using ne by (metis append_butlast_last_id concat_append concat.simps append_Nil2)
  then show "concat (chunks v') = concat (chunks v) @ [x]"
    using assms by (auto simp: add_eq split: if_splits)
qed

lemma add_all_append:
  "add_all C (xs @ ys) v =
     (case add_all C xs v of Inl e \<Rightarrow> Inl e | Inr v' \<Rightarrow> add_all C ys v')"
  by (induction xs arbitrary: v) (auto split: sum.splits)

lemma add_all_Inr:
  "add_all C xs v = Inr v' \<Longrightarrow> chunks v \<noteq> [] \<Longrightarrow>
   chunks v' \<noteq> [] \<and> concat (chunks v') = concat (chunks v) @ xs
   \<and> size_m v' = size_m v + of_nat (length xs)"
proof (induction xs arbitrary: v)
  case Nil
  then show ?case by simp
next
  case (Cons x xs)
  from Cons.prems(1) obtain v1 r i where a: "add C x v = Inr (v1, r, i)"
    and rest: "add_all C xs v1 = Inr v'"
    by (auto split: sum.splits)
  from Cons.IH[OF rest add_Inr(5)[OF a]] add_Inr(3,4)[OF a]
  show ?case by simp
qed


subsection \<open>The shape of the chunks\<close>

lemma chunks_wf_single: "chunks_wf C [c] \<longleftrightarrow> length c \<le> C"
  by (simp add: chunks_wf_def)

lemma chunks_wf_Cons:
  "cs \<noteq> [] \<Longrightarrow> chunks_wf C (c # cs) \<longleftrightarrow> length c = C \<and> last cs \<noteq> [] \<and> chunks_wf C cs"
  by (auto simp: chunks_wf_def)

lemma chunks_wf_add:
  assumes "add C x v = Inr (v', r, i)" and "chunks_wf (unat C) (chunks v)" and "C \<noteq> 0"
  shows "chunks_wf (unat C) (chunks v')"
proof -
  have pos: "0 < unat C" using assms(3) by (simp add: unat_gt_0)
  show ?thesis
  proof (cases "length (last (chunks v)) < unat C")
    case True
    then have "chunks v' = butlast (chunks v) @ [last (chunks v) @ [x]]"
      using assms(1) by (auto simp: add_eq split: if_splits)
    then show ?thesis using assms(2) True by (simp add: chunks_wf_def)
  next
    case False
    then have eq: "chunks v' = chunks v @ [[x]]"
      using assms(1) by (auto simp: add_eq split: if_splits)
    have full: "length (last (chunks v)) = unat C"
      using False assms(2) by (simp add: chunks_wf_def)
    have "\<forall>c \<in> set (chunks v). length c = unat C"
    proof
      fix c assume "c \<in> set (chunks v)"
      moreover have "chunks v = butlast (chunks v) @ [last (chunks v)]"
        using assms(2) by (simp add: chunks_wf_def)
      ultimately have "c \<in> set (butlast (chunks v)) \<or> c = last (chunks v)"
        by (metis Un_iff empty_iff insert_iff list.set(1) list.set(2) set_append)
      then show "length c = unat C"
        using full assms(2) by (auto simp: chunks_wf_def)
    qed
    then show ?thesis using eq pos assms(2) by (simp add: chunks_wf_def)
  qed
qed

lemma chunks_wf_add_all:
  "add_all C xs v = Inr v' \<Longrightarrow> chunks_wf (unat C) (chunks v) \<Longrightarrow> C \<noteq> 0 \<Longrightarrow>
   chunks_wf (unat C) (chunks v')"
proof (induction xs arbitrary: v)
  case Nil
  then show ?case by simp
next
  case (Cons x xs)
  from Cons.prems(1) obtain v1 r i where a: "add C x v = Inr (v1, r, i)"
    and rest: "add_all C xs v1 = Inr v'"
    by (auto split: sum.splits)
  show ?case
    by (rule Cons.IH[OF rest chunks_wf_add[OF a Cons.prems(2,3)] Cons.prems(3)])
qed

lemma chunks_wf_nth:
  "chunks_wf C cs \<Longrightarrow> 0 < C \<Longrightarrow>
   (i div C < length cs \<and> i mod C < length (cs ! (i div C))) = (i < length (concat cs))
   \<and> (i < length (concat cs) \<longrightarrow> cs ! (i div C) ! (i mod C) = concat cs ! i)"
proof (induction cs arbitrary: i)
  case Nil
  then show ?case by (simp add: chunks_wf_def)
next
  case (Cons c cs)
  show ?case
  proof (cases "cs = []")
    case True
    with Cons.prems have "length c \<le> C" by (simp add: chunks_wf_single)
    with True Cons.prems(2) show ?thesis
      by (cases "i < C") (auto simp: div_eq_0_iff)
  next
    case False
    with Cons.prems have len: "length c = C" and wf: "chunks_wf C cs"
      by (simp_all add: chunks_wf_Cons)
    show ?thesis
    proof (cases "i < C")
      case True
      with len show ?thesis by (simp add: nth_append)
    next
      case ge: False
      then have d: "i div C = Suc ((i - C) div C)" and m: "i mod C = (i - C) mod C"
        using Cons.prems(2) by (simp_all add: le_div_geq le_mod_geq)
      from Cons.IH[OF wf Cons.prems(2), of "i - C"] ge len
      show ?thesis unfolding d m by (auto simp: nth_append)
    qed
  qed
qed

lemma chunks_wf_length_concat:
  "chunks_wf C cs \<Longrightarrow> length (concat cs) = (length cs - 1) * C + length (last cs)"
proof (induction cs)
  case Nil
  then show ?case by (simp add: chunks_wf_def)
next
  case (Cons c cs)
  show ?case
  proof (cases "cs = []")
    case True
    then show ?thesis by simp
  next
    case False
    with Cons.prems have "length c = C" and "chunks_wf C cs"
      by (simp_all add: chunks_wf_Cons)
    with Cons.IH False show ?thesis
      by (cases cs) simp_all
  qed
qed

subsection \<open>Counting chunks\<close>

lemma ceil_div_le_one: "0 < C \<Longrightarrow> l \<le> C \<Longrightarrow> ceil_div l C \<le> 1"
proof -
  assume "0 < C" "l \<le> C"
  then have "l + C - 1 < 2 * C" by arith
  then have "(l + C - 1) div C < 2" by (rule less_mult_imp_div_less)
  then show ?thesis by (simp add: ceil_div_def)
qed

lemma ceil_div_step:
  assumes "0 < C" and "0 < l" and "l \<le> C"
  shows "ceil_div (k * C + l) C = k + 1"
proof -
  have one: "(l + C - 1) div C = 1"
    using assms by (intro div_nat_eqI) simp_all
  have "k * C + l + C - 1 = k * C + (l + C - 1)" using assms by arith
  then have "ceil_div (k * C + l) C = (k * C + (l + C - 1)) div C"
    by (simp add: ceil_div_def)
  also have "\<dots> = k + (l + C - 1) div C"
    by (rule div_mult_self3) (use assms(1) in simp)
  finally show ?thesis using one by simp
qed

lemma chunks_wf_count:
  assumes "chunks_wf C cs" and "0 < C"
  shows "length cs = max 1 (ceil_div (length (concat cs)) C)"
proof (cases "butlast cs = []")
  case True
  from assms(1) have ne: "cs \<noteq> []" by (simp add: chunks_wf_def)
  with True have one: "length cs = 1"
    by (cases cs) (simp_all split: if_splits)
  with chunks_wf_length_concat[OF assms(1)] assms(1)
  have "length (concat cs) \<le> C" by (simp add: chunks_wf_def)
  from ceil_div_le_one[OF assms(2) this] one show ?thesis by simp
next
  case False
  with assms(1) have l: "0 < length (last cs)" "length (last cs) \<le> C"
    by (simp_all add: chunks_wf_def)
  from False have k: "length cs = (length cs - 1) + 1" by (cases cs) simp_all
  from ceil_div_step[OF assms(2) l, of "length cs - 1"] chunks_wf_length_concat[OF assms(1)] k
  show ?thesis by simp
qed


subsection \<open>The counter does not wrap\<close>

lemma unat_inc32: "unat (s::uint32_t) < 4294967295 \<Longrightarrow> unat (s + 1) = unat s + 1"
  by (simp add: unat_word_ariths)

lemma fits_add:
  assumes "add C x v = Inr (v', r, i)" and "unat C < 4294967296" and "fits C v"
  shows "fits C v'" and "unat (size_m v') = unat (size_m v) + 1"
proof -
  have ne: "chunks v \<noteq> []" and sz: "size_m v' = size_m v + 1"
    using add_Inr[OF assms(1)] by simp_all
  have small: "unat (size_m v) < 4294967295"
    using assms(3) by (simp add: fits_def)
  show inc: "unat (size_m v') = unat (size_m v) + 1"
    using sz unat_inc32[OF small] by simp
  show "fits C v'"
  proof (cases "length (last (chunks v)) < unat C")
    case True
    then have "chunks v' = butlast (chunks v) @ [last (chunks v) @ [x]]"
      using assms(1) ne by (auto simp: add_eq split: if_splits)
    then show ?thesis using assms(3) inc True by (simp add: fits_def)
  next
    case False
    then have "chunks v' = chunks v @ [[x]]"
      and "\<not> 4294967295 \<le> unat (size_m v + 1) + unat C"
      using assms(1,2) ne by (auto simp: add_eq split: if_splits)
    then show ?thesis using inc sz by (simp add: fits_def)
  qed
qed

lemma fits_new:
  "ChunkedVector_new C r = Inr v \<Longrightarrow> unat C < 4294967296 \<Longrightarrow> fits C v"
  using new_Inr[of C r v] by (simp add: fits_def)

lemma fits_add_all:
  "add_all C xs v = Inr v' \<Longrightarrow> unat C < 4294967296 \<Longrightarrow> fits C v \<Longrightarrow>
   fits C v' \<and> unat (size_m v') = unat (size_m v) + length xs"
proof (induction xs arbitrary: v)
  case Nil
  then show ?case by simp
next
  case (Cons x xs)
  from Cons.prems(1) obtain v1 r i where a: "add C x v = Inr (v1, r, i)"
    and rest: "add_all C xs v1 = Inr v'"
    by (auto split: sum.splits)
  from Cons.IH[OF rest Cons.prems(2) fits_add(1)[OF a Cons.prems(2,3)]]
    fits_add(2)[OF a Cons.prems(2,3)]
  show ?case by simp
qed

subsection \<open>States reached from the constructor\<close>

lemma reachable_basic:
  assumes "ChunkedVector_new C r = Inr v0" and "add_all C xs v0 = Inr v"
  shows "chunks v \<noteq> []" and "concat (chunks v) = xs" and "size_m v = of_nat (length xs)"
    and "unat (size_m v) \<le> length xs"
proof -
  have v0: "v0 = \<lparr>size_m = 0, chunks = [[]]\<rparr>" by (rule new_Inr(1)[OF assms(1)])
  from add_all_Inr[OF assms(2)] v0
  show "chunks v \<noteq> []" "concat (chunks v) = xs" and sz: "size_m v = of_nat (length xs)"
    by simp_all
  show "unat (size_m v) \<le> length xs"
    unfolding sz by (simp add: unat_of_nat)
qed

lemma reachable_size:
  assumes "ChunkedVector_new C r = Inr v0" and "add_all C xs v0 = Inr v"
    and "unat C < 4294967296 \<or> length xs < 4294967296"
  shows "unat (size_m v) = length xs"
proof (cases "unat C < 4294967296")
  case True
  from fits_add_all[OF assms(2) True fits_new[OF assms(1) True]] new_Inr(1)[OF assms(1)]
  show ?thesis by simp
next
  case False
  with assms(3) have "length xs < 4294967296" by simp
  then show ?thesis
    using reachable_basic(3)[OF assms(1,2)] by (simp add: unat_of_nat)
qed

lemma reachable_wf:
  assumes "ChunkedVector_new C r = Inr v0" and "add_all C xs v0 = Inr v" and "C \<noteq> 0"
  shows "chunks_wf (unat C) (chunks v)"
proof -
  have "chunks_wf (unat C) (chunks v0)"
    using new_Inr(1)[OF assms(1)] by (simp add: chunks_wf_def)
  then show ?thesis by (rule chunks_wf_add_all[OF assms(2) _ assms(3)])
qed

lemma get_eq:
  "C \<noteq> 0 \<Longrightarrow> get C v idx =
     (if unat idx div unat C < length (chunks v)
         \<and> unat idx mod unat C < length (chunks v ! (unat idx div unat C))
      then Inr (chunks v ! (unat idx div unat C) ! (unat idx mod unat C))
      else Inl UndefinedBehaviour)"
  by (simp add: get_def Let_def unat_div unat_mod unat_ucast32)

lemma fold_chunks: "fold (\<lambda>c. fold fn c) cs s = fold fn (concat cs) s"
  by (induction cs arbitrary: s) simp_all

lemma forEach_concat: "forEach fn v s = fold fn (concat (chunks v)) s"
  by (simp add: forEach_def fold_chunks)

subsection \<open>Reading, visiting, and two concrete runs\<close>

lemma reachable_get:
  assumes "ChunkedVector_new C r = Inr v0" and "add_all C xs v0 = Inr v" and "C \<noteq> 0"
  shows "(unat idx div unat C < length (chunks v)
          \<and> unat idx mod unat C < length (chunks v ! (unat idx div unat C)))
         = (unat idx < length xs)"
    and "unat idx < length xs \<Longrightarrow>
         chunks v ! (unat idx div unat C) ! (unat idx mod unat C) = xs ! unat idx"
    and "get C v idx = (if unat idx < length xs then Inr (xs ! unat idx)
                        else Inl UndefinedBehaviour)"
proof -
  have pos: "0 < unat C" using assms(3) by (simp add: unat_gt_0)
  note nth = chunks_wf_nth[OF reachable_wf[OF assms] pos, of "unat idx",
      unfolded reachable_basic(2)[OF assms(1,2)]]
  from nth show in_range: "(unat idx div unat C < length (chunks v)
          \<and> unat idx mod unat C < length (chunks v ! (unat idx div unat C)))
         = (unat idx < length xs)" by simp
  from nth show at: "unat idx < length xs \<Longrightarrow>
         chunks v ! (unat idx div unat C) ! (unat idx mod unat C) = xs ! unat idx" by simp
  show "get C v idx = (if unat idx < length xs then Inr (xs ! unat idx)
                        else Inl UndefinedBehaviour)"
    using in_range at by (simp add: get_eq[OF assms(3)])
qed

lemma fold_snoc: "fold (\<lambda>e acc. acc @ [e]) xs ys = ys @ xs"
  by (induction xs arbitrary: ys) simp_all

lemma fold_count: "fold (\<lambda>e n. Suc n) xs k = k + length xs"
  by (induction xs arbitrary: k) simp_all

lemma pairs_state:
  "Suc k \<le> 2147483646 \<Longrightarrow>
   add_all 2 (replicate (2 * Suc k) a) \<lparr>size_m = 0, chunks = [[]]\<rparr>
     = Inr \<lparr>size_m = of_nat (2 * Suc k), chunks = replicate (Suc k) [a, a]\<rparr>"
proof (induction k)
  case 0
  have "replicate (2 * Suc 0) a = [a, a]" by (simp add: numeral_2_eq_2)
  then show ?case by (simp add: add_eq)
next
  case (Suc k)
  let ?S = "\<lparr>size_m = of_nat (2 * Suc k) :: uint32_t, chunks = replicate (Suc k) [a, a]\<rparr>"
  have IH: "add_all 2 (replicate (2 * Suc k) a) \<lparr>size_m = 0, chunks = [[]]\<rparr> = Inr ?S"
    using Suc by simp
  have "2 * Suc (Suc k) = 2 * Suc k + 2" by simp
  then have "replicate (2 * Suc (Suc k)) a = replicate (2 * Suc k) a @ replicate 2 a"
    by (simp only: replicate_add)
  moreover have "replicate 2 a = [a, a]" by (simp add: numeral_2_eq_2)
  ultimately have split: "replicate (2 * Suc (Suc k)) a = replicate (2 * Suc k) a @ [a, a]"
    by simp
  have "unat (of_nat (2 * Suc k) + 1 :: uint32_t) = 2 * Suc k + 1"
    using Suc.prems by (simp add: unat_word_ariths unat_of_nat)
  then have first: "add 2 a ?S
      = Inr (\<lparr>size_m = of_nat (2 * Suc k) + 1, chunks = replicate (Suc k) [a, a] @ [[a]]\<rparr>,
             (Suc k, 0), of_nat (2 * Suc k))"
    using Suc.prems by (simp add: add_eq)
  have second: "add 2 a \<lparr>size_m = of_nat (2 * Suc k) + 1 :: uint32_t,
                          chunks = replicate (Suc k) [a, a] @ [[a]]\<rparr>
      = Inr (\<lparr>size_m = of_nat (2 * Suc (Suc k)), chunks = replicate (Suc (Suc k)) [a, a]\<rparr>,
             (Suc k, 1), of_nat (2 * Suc k) + 1)"
    by (simp add: add_eq replicate_append_same)
  show ?case
    unfolding split add_all_append IH using first second by simp
qed

lemma unat_max32: "unat (- 1 :: uint32_t) = 4294967295"
  by (simp add: unsigned_minus_1_eq_mask mask_eq_exp_minus_1)

lemma scenario_new: "ChunkedVector_new 2 0 = Inr \<lparr>size_m = 0, chunks = [[]]\<rparr>"
  by (simp add: ChunkedVector_new_def addChunk_def default_init_def max32)

lemma scenario_adds:
  "add_all 2 ''ab'' \<lparr>size_m = 0, chunks = [[]]\<rparr> = Inr \<lparr>size_m = 2, chunks = [''ab'']\<rparr>"
  "add_all 2 ''c'' \<lparr>size_m = 2, chunks = [''ab'']\<rparr> = Inr \<lparr>size_m = 3, chunks = [''ab'', ''c'']\<rparr>"
  "add_all 2 ''abc'' \<lparr>size_m = 0, chunks = [[]]\<rparr> = Inr \<lparr>size_m = 3, chunks = [''ab'', ''c'']\<rparr>"
  by (simp_all add: add_def addChunk_def max32)

subsection \<open>Runs in which the counter cannot wrap\<close>

text \<open>
  When the chunk size or the number of calls is below \<open>2^32\<close>, the counter is the number
  of calls: \<open>size()\<close> counts the elements, \<open>forEach\<close> visits \<open>size()\<close> elements, the
  indices in use are those below \<open>size()\<close>, and the invariant of \<open>add\<close> and
  \<open>operator[]\<close> holds. That \<open>forEach\<close> visits the added values, each once and in the
  order of the calls, does not depend on the counter.
\<close>

lemma size_counts_adds:
  assumes "ChunkedVector_new C r = Inr v0"
    and "add_all C xs v0 = Inr v"
    and "unat C < 4294967296 \<or> length xs < 4294967296"
  shows "unat (size_cv v) = length xs"
  using reachable_size[OF assms] by (simp add: size_cv_def)

lemma forEach_insertion_order:
  assumes "ChunkedVector_new C r = Inr v0"
    and "add_all C xs v0 = Inr v"
  shows "forEach fn v s = fold fn xs s
     \<and> forEach (\<lambda>e visited. visited @ [e]) v [] = xs
     \<and> forEach (\<lambda>e n. Suc n) v 0 = length xs"
  by (simp add: forEach_concat reachable_basic(2)[OF assms] fold_snoc fold_count)

lemma forEach_visits_size:
  assumes "ChunkedVector_new C r = Inr v0"
    and "add_all C xs v0 = Inr v"
    and "unat C < 4294967296 \<or> length xs < 4294967296"
  shows "forEach (\<lambda>e n. Suc n) v 0 = unat (size_cv v)"
  using reachable_size[OF assms]
  by (simp add: forEach_concat reachable_basic(2)[OF assms(1,2)] fold_count size_cv_def)

lemma add_index_dense:
  assumes "ChunkedVector_new C r = Inr v0"
    and "add_all C xs v0 = Inr v"
    and "C \<noteq> 0"
    and "unat C < 4294967296 \<or> length xs < 4294967296"
  shows "(\<forall>x v' r i. add C x v = Inr (v', r, i) \<longrightarrow> i = size_cv v \<and> unat i = length xs)
     \<and> (\<forall>idx. (\<exists>y. get C v idx = Inr y) = (idx < size_cv v))"
proof -
  have n: "unat (size_m v) = length xs" by (rule reachable_size[OF assms(1,2,4)])
  have "i = size_cv v \<and> unat i = length xs" if "add C x v = Inr (v', r, i)" for x v' r i
    using add_Inr(2)[OF that] n by (simp add: size_cv_def)
  moreover have "(\<exists>y. get C v idx = Inr y) = (idx < size_cv v)" for idx
    using reachable_get(3)[OF assms(1,2,3), of idx] n
    by (simp add: size_cv_def word_less_nat_alt)
  ultimately show ?thesis by blast
qed

lemma invariant_reachable:
  assumes "ChunkedVector_new C r = Inr v0"
    and "add_all C xs v0 = Inr v"
    and "C \<noteq> 0"
    and "unat C < 4294967296 \<or> length xs < 4294967296"
  shows "cv_invariant C v0
     \<and> cv_invariant C v
     \<and> add C x v \<noteq> Inl UndefinedBehaviour
     \<and> (\<forall>idx. idx < size_cv v \<longrightarrow> get C v idx = Inr (concat (chunks v) ! unat idx))"
proof -
  have inv: "cv_invariant C w"
    if "add_all C zs v0 = Inr w" and "unat C < 4294967296 \<or> length zs < 4294967296" for zs w
  proof -
    note wf = reachable_wf[OF assms(1) that(1) assms(3)]
    have "sum_list (map length (chunks w)) = length (concat (chunks w))"
      by (simp add: length_concat)
    also have "\<dots> = unat (size_m w)"
      using reachable_basic(2)[OF assms(1) that(1)] reachable_size[OF assms(1) that] by simp
    finally show ?thesis using wf by (simp add: cv_invariant_def chunks_wf_def)
  qed
  have "add_all C [] v0 = Inr v0" by simp
  then have i0: "cv_invariant C v0" by (rule inv) simp
  have i1: "cv_invariant C v" by (rule inv[OF assms(2,4)])
  have ub: "add C x v \<noteq> Inl UndefinedBehaviour"
    using reachable_basic(1)[OF assms(1,2)] by (simp add: add_eq)
  have n: "unat (size_m v) = length xs" by (rule reachable_size[OF assms(1,2,4)])
  have "get C v idx = Inr (concat (chunks v) ! unat idx)" if "idx < size_cv v" for idx
    using that reachable_get(3)[OF assms(1,2,3), of idx] n reachable_basic(2)[OF assms(1,2)]
    by (simp add: size_cv_def word_less_nat_alt)
  with i0 i1 ub show ?thesis by blast
qed

subsection \<open>A run with chunk size \<open>2^32\<close>\<close>

text \<open>
  With \<open>ChunkSize = 2^32\<close> the guard of \<open>addChunk\<close> compares with
  \<open>UINT32_MAX - 2^32\<close>, which is \<open>2^64 - 1\<close> in \<open>size_t\<close>, and never holds. The first
  chunk takes \<open>2^32\<close> elements, and the counter is back at 0 after as many calls.
\<close>

lemma wide_new: "ChunkedVector_new 4294967296 0 = Inr \<lparr>size_m = 0, chunks = [[]]\<rparr>"
  by (simp add: ChunkedVector_new_def addChunk_eq default_init_def)

lemma wide_state:
  "n \<le> 4294967296 \<Longrightarrow>
   add_all 4294967296 (replicate n a) \<lparr>size_m = 0, chunks = [[]]\<rparr>
     = Inr \<lparr>size_m = of_nat n, chunks = [replicate n a]\<rparr>"
proof (induction n)
  case 0
  show ?case by simp
next
  case (Suc n)
  have split: "replicate (Suc n) a = replicate n a @ [a]"
    by (simp add: replicate_append_same)
  have IH: "add_all 4294967296 (replicate n a) \<lparr>size_m = 0, chunks = [[]]\<rparr>
     = Inr \<lparr>size_m = of_nat n, chunks = [replicate n a]\<rparr>"
    using Suc by simp
  have step: "add 4294967296 a \<lparr>size_m = of_nat n :: uint32_t, chunks = [replicate n a]\<rparr>
      = Inr (\<lparr>size_m = of_nat (Suc n), chunks = [replicate n a @ [a]]\<rparr>, (0, n), of_nat n)"
    using Suc.prems by (simp add: add_eq)
  have "add_all 4294967296 (replicate n a @ [a]) \<lparr>size_m = 0, chunks = [[]]\<rparr>
     = Inr \<lparr>size_m = of_nat (Suc n), chunks = [replicate n a @ [a]]\<rparr>"
    unfolding add_all_append IH using step by simp
  then show ?case by (simp only: split)
qed

lemma wide_wrapped:
  "add_all 4294967296 (replicate 4294967296 a) \<lparr>size_m = 0, chunks = [[]]\<rparr>
     = Inr \<lparr>size_m = 0, chunks = [replicate 4294967296 a]\<rparr>"
proof -
  have "(of_nat 4294967296 :: uint32_t) = 0" by simp
  with wide_state[of 4294967296 a] show ?thesis by simp
qed

section \<open>ChunkedVector: the properties\<close>

text \<open>
  C1. After the constructor and any sequence of \<open>add\<close> calls that return, for a chunk
  size other than zero and every index \<open>idx < size()\<close>, \<open>operator[]\<close> returns the value
  passed to the \<open>idx\<close>-th \<open>add\<close> call (counting from 0), and it still does after any
  further \<open>add\<close> calls that return; the element is stored in chunk
  \<open>idx / ChunkSize\<close> at offset \<open>idx % ChunkSize\<close>, before and after the further calls.
\<close>

theorem get_returns_added:
  assumes "ChunkedVector_new C r = Inr v0"
    and "add_all C xs v0 = Inr v"
    and "add_all C ys v = Inr v'"
    and "C \<noteq> 0"
    and "idx < size_cv v"
  shows "unat idx < length xs
     \<and> get C v idx = Inr (xs ! unat idx)
     \<and> get C v' idx = Inr (xs ! unat idx)
     \<and> unat idx div unat C < length (chunks v)
     \<and> unat idx mod unat C < length (chunks v ! (unat idx div unat C))
     \<and> chunks v ! (unat idx div unat C) ! (unat idx mod unat C) = xs ! unat idx
     \<and> unat idx div unat C < length (chunks v')
     \<and> unat idx mod unat C < length (chunks v' ! (unat idx div unat C))
     \<and> chunks v' ! (unat idx div unat C) ! (unat idx mod unat C) = xs ! unat idx"
proof -
  have i: "unat idx < length xs"
    using assms(5) reachable_basic(4)[OF assms(1,2)]
    by (simp add: size_cv_def word_less_nat_alt)
  have later: "add_all C (xs @ ys) v0 = Inr v'"
    using assms(2,3) by (simp add: add_all_append)
  have i': "unat idx < length (xs @ ys)" using i by simp
  have same: "(xs @ ys) ! unat idx = xs ! unat idx" using i by (simp add: nth_append)
  note now = reachable_get[OF assms(1,2,4), of idx]
  note then' = reachable_get[OF assms(1) later assms(4), of idx]
  show ?thesis
    using i i' same now(1) now(2)[OF i] now(3) then'(1) then'(2)[OF i'] then'(3)
    by simp
qed

text \<open>The scenario with chunk size 2 and the elements \<open>a\<close>, \<open>b\<close>, \<open>c\<close>.\<close>

theorem get_returns_added_witness:
  "get 2 \<lparr>size_m = 2, chunks = [''ab'']\<rparr> 1 = Inr (CHR ''b'')
   \<and> get 2 \<lparr>size_m = 3, chunks = [''ab'', ''c'']\<rparr> 1 = Inr (CHR ''b'')
   \<and> [''ab'', ''c''] ! (1 div 2) ! (1 mod 2) = CHR ''b''"
proof -
  have lt: "(1::uint32_t) < size_cv \<lparr>size_m = 2, chunks = [''ab'']\<rparr>"
    by (simp add: size_cv_def)
  have ne: "(2::size_t) \<noteq> 0" by simp
  from get_returns_added[OF scenario_new scenario_adds(1) scenario_adds(2) ne lt]
  show ?thesis by simp
qed

text \<open>
  C2. The number of elements and \<open>size()\<close> part at a chunk size of \<open>2^32\<close>: the
  constructor returns, \<open>2^32\<close> calls of \<open>add\<close> all return, and then \<open>size()\<close> is 0.
  The subtraction \<open>UINT32_MAX - ChunkSize\<close> in the guard of \<open>addChunk\<close> has wrapped in
  \<open>size_t\<close>, so the abort that should end such a run never comes, and \<open>size_++\<close> wraps.
\<close>

theorem size_wraps:
  "ChunkedVector_new 4294967296 0 = Inr \<lparr>size_m = 0, chunks = [[] :: nat list]\<rparr>
   \<and> add_all 4294967296 (replicate 4294967296 (0::nat)) \<lparr>size_m = 0, chunks = [[]]\<rparr>
       = Inr \<lparr>size_m = 0, chunks = [replicate 4294967296 0]\<rparr>
   \<and> length (replicate 4294967296 (0::nat)) = 4294967296
   \<and> unat (size_cv \<lparr>size_m = 0, chunks = [replicate 4294967296 (0::nat)]\<rparr>) = 0"
  by (simp add: wide_new wide_wrapped size_cv_def)

text \<open>
  C3, as amended. After the constructor and \<open>N\<close> calls of \<open>add\<close> that return, with a
  chunk size \<open>C\<close> other than zero, the number of chunks is \<open>max 1 (ceil (N / C))\<close>: one
  chunk when \<open>N = 0\<close>, since the constructor allocates it, and exactly \<open>ceil (N / C)\<close> when
  \<open>N > 0\<close>. Every chunk before the last holds exactly \<open>C\<close> elements, so a chunk is
  allocated only once its predecessor is full, and the last holds at most \<open>C\<close>.
\<close>

theorem chunk_count:
  assumes "ChunkedVector_new C r = Inr v0"
    and "add_all C xs v0 = Inr v"
    and "C \<noteq> 0"
  shows "length (chunks v) = max 1 (ceil_div (length xs) (unat C))
     \<and> (xs \<noteq> [] \<longrightarrow> length (chunks v) = ceil_div (length xs) (unat C))
     \<and> (\<forall>c \<in> set (butlast (chunks v)). length c = unat C)
     \<and> length (last (chunks v)) \<le> unat C"
proof -
  have pos: "0 < unat C" using assms(3) by (simp add: unat_gt_0)
  note wf = reachable_wf[OF assms]
  have n: "length (chunks v) = max 1 (ceil_div (length xs) (unat C))"
    using chunks_wf_count[OF wf pos] reachable_basic(2)[OF assms(1,2)] by simp
  have "1 \<le> ceil_div (length xs) (unat C)" if "xs \<noteq> []"
  proof -
    from that have "unat C \<le> length xs + unat C - 1" by (cases xs) simp_all
    then have "unat C div unat C \<le> (length xs + unat C - 1) div unat C"
      by (rule div_le_mono)
    then show ?thesis using pos by (simp add: ceil_div_def)
  qed
  with n have "xs \<noteq> [] \<longrightarrow> length (chunks v) = ceil_div (length xs) (unat C)"
    by auto
  with n wf show ?thesis by (simp add: chunks_wf_def)
qed

text \<open>
  The count \<open>ceil (N / C)\<close> fails at \<open>N = 0\<close>: the freshly constructed vector with chunk
  size 2 has one chunk, and \<open>ceil (0 / 2) = 0\<close>.
\<close>

theorem chunk_count_counterexample:
  "ChunkedVector_new 2 0 = Inr \<lparr>size_m = 0, chunks = [[] :: nat list]\<rparr>
   \<and> add_all 2 [] \<lparr>size_m = 0, chunks = [[] :: nat list]\<rparr>
       = Inr \<lparr>size_m = 0, chunks = [[]]\<rparr>
   \<and> length (chunks \<lparr>size_m = 0, chunks = [[] :: nat list]\<rparr>)
       \<noteq> ceil_div (length ([] :: nat list)) (unat (2 :: size_t))"
  by (simp add: scenario_new ceil_div_def)

text \<open>The scenario with chunk size 2 and the elements \<open>a\<close>, \<open>b\<close>, \<open>c\<close>.\<close>

theorem chunk_count_witness:
  "length (chunks \<lparr>size_m = 3, chunks = [''ab'', ''c'']\<rparr>) = max 1 (ceil_div (length ''abc'') (unat (2::size_t)))
   \<and> length (chunks \<lparr>size_m = 3, chunks = [''ab'', ''c'']\<rparr>) = 2
   \<and> length (last (chunks \<lparr>size_m = 3, chunks = [''ab'', ''c'']\<rparr>)) \<le> unat (2::size_t)"
proof -
  have ne: "(2::size_t) \<noteq> 0" by simp
  from chunk_count[OF scenario_new scenario_adds(3) ne]
  show ?thesis by simp
qed

text \<open>
  C4, as amended. For a chunk size below \<open>2^32\<close>, in a state reached from the constructor
  by \<open>N\<close> calls of \<open>add\<close> that return: \<open>add\<close> aborts exactly when the tail chunk is
  full (it holds \<open>ChunkSize\<close> elements or more) and \<open>N + 1 + ChunkSize \<ge> 2^32 - 1\<close>,
  which is the guard of \<open>addChunk\<close> for the incremented counter. \<open>N\<close> is at most
  \<open>2^32 - 2\<close> in every such state, so an abort comes before the 32-bit index space is used
  up, never because the next index cannot be represented. In every other case \<open>add\<close>
  returns \<open>N\<close> as the index, makes \<open>size()\<close> equal to \<open>N + 1\<close> and appends exactly the new
  element.
\<close>

theorem add_abort_iff:
  assumes "ChunkedVector_new C r = Inr v0"
    and "add_all C xs v0 = Inr v"
    and "unat C < 4294967296"
  shows "(add C x v = Inl Abort)
           = (unat C \<le> length (last (chunks v)) \<and> 4294967295 \<le> length xs + 1 + unat C)
     \<and> length xs \<le> 4294967294
     \<and> (add C x v \<noteq> Inl Abort \<longrightarrow>
          (\<exists>v' r. add C x v = Inr (v', r, of_nat (length xs))
             \<and> unat (size_cv v') = length xs + 1
             \<and> concat (chunks v') = xs @ [x]))"
proof -
  note f = fits_add_all[OF assms(2,3) fits_new[OF assms(1,3)]]
  have n: "unat (size_m v) = length xs"
    using f new_Inr(1)[OF assms(1)] by simp
  have le: "length xs \<le> 4294967294"
    using f n by (simp add: fits_def)
  have inc: "unat (size_m v + 1) = length xs + 1"
    using unat_inc32[of "size_m v"] n le by simp
  have ne: "chunks v \<noteq> []" by (rule reachable_basic(1)[OF assms(1,2)])
  have a: "(add C x v = Inl Abort)
           = (unat C \<le> length (last (chunks v)) \<and> 4294967295 \<le> length xs + 1 + unat C)"
    using ne assms(3) inc by (auto simp: add_eq)
  have b: "\<exists>v' r. add C x v = Inr (v', r, of_nat (length xs))
             \<and> unat (size_cv v') = length xs + 1
             \<and> concat (chunks v') = xs @ [x]"
    if no: "add C x v \<noteq> Inl Abort"
  proof -
    from ne no obtain v' r i where eq: "add C x v = Inr (v', r, i)"
      by (auto simp: add_eq split: if_splits)
    have "i = of_nat (length xs)"
      using add_Inr(2)[OF eq] reachable_basic(3)[OF assms(1,2)] by simp
    moreover have "unat (size_cv v') = length xs + 1"
      using add_Inr(3)[OF eq] inc by (simp add: size_cv_def)
    moreover have "concat (chunks v') = xs @ [x]"
      using add_Inr(4)[OF eq] reachable_basic(2)[OF assms(1,2)] by simp
    ultimately show ?thesis using eq by simp
  qed
  from a le b show ?thesis by blast
qed

text \<open>
  The abort does not wait for the index space to be used up. With chunk size 2, after
  4294967292 calls of \<open>add\<close> the next call aborts, although the index it would assign,
  4294967292, and the element count it would reach, 4294967293, are both below the largest
  32-bit value 4294967295.
\<close>

theorem add_abort_counterexample:
  "ChunkedVector_new 2 0 = Inr \<lparr>size_m = 0, chunks = [[] :: nat list]\<rparr>
   \<and> add_all 2 (replicate 4294967292 (0::nat)) \<lparr>size_m = 0, chunks = [[]]\<rparr>
       = Inr \<lparr>size_m = 4294967292, chunks = replicate 2147483646 [0, 0]\<rparr>
   \<and> add 2 (0::nat) \<lparr>size_m = 4294967292, chunks = replicate 2147483646 [0, 0]\<rparr> = Inl Abort
   \<and> unat (size_cv \<lparr>size_m = 4294967292, chunks = replicate 2147483646 [0::nat, 0]\<rparr>) + 1
       < unat (- 1 :: uint32_t)"
proof -
  have "add_all 2 (replicate (2 * Suc 2147483645) (0::nat)) \<lparr>size_m = 0, chunks = [[]]\<rparr>
       = Inr \<lparr>size_m = of_nat (2 * Suc 2147483645), chunks = replicate (Suc 2147483645) [0, 0]\<rparr>"
    by (rule pairs_state) simp
  then have reach: "add_all 2 (replicate 4294967292 (0::nat)) \<lparr>size_m = 0, chunks = [[]]\<rparr>
       = Inr \<lparr>size_m = 4294967292, chunks = replicate 2147483646 [0, 0]\<rparr>"
    by simp
  have abort: "add 2 (0::nat) \<lparr>size_m = 4294967292, chunks = replicate 2147483646 [0, 0]\<rparr>
       = Inl Abort"
    by (simp add: add_eq)
  have "unat (size_cv \<lparr>size_m = 4294967292, chunks = replicate 2147483646 [0::nat, 0]\<rparr>) + 1
       < unat (- 1 :: uint32_t)"
    by (simp add: size_cv_def unat_max32)
  with scenario_new reach abort show ?thesis by simp
qed

text \<open>The scenario with chunk size 2 and the elements \<open>a\<close>, \<open>b\<close>, \<open>c\<close>.\<close>

theorem add_abort_iff_witness:
  "add 2 CHR ''d'' \<lparr>size_m = 3, chunks = [''ab'', ''c'']\<rparr> \<noteq> Inl Abort
   \<and> (\<exists>v' r. add 2 CHR ''d'' \<lparr>size_m = 3, chunks = [''ab'', ''c'']\<rparr> = Inr (v', r, 3)
         \<and> unat (size_cv v') = 4 \<and> concat (chunks v') = ''abcd'')"
proof -
  have c: "unat (2::size_t) < 4294967296" by simp
  from add_abort_iff[OF scenario_new scenario_adds(3) c, of "CHR ''d''"]
  show ?thesis by (simp add: add_eq)
qed

text \<open>
  C5. At a chunk size of \<open>2^32\<close>, after \<open>2^32\<close> calls of \<open>add\<close>, a visitor that counts
  its calls is called \<open>2^32\<close> times by \<open>forEach\<close>, while \<open>size()\<close> is 0: the counter has
  wrapped, because the guard of \<open>addChunk\<close> did not abort.
\<close>

theorem forEach_count_wraps:
  "add_all 4294967296 (replicate 4294967296 (0::nat)) \<lparr>size_m = 0, chunks = [[]]\<rparr>
       = Inr \<lparr>size_m = 0, chunks = [replicate 4294967296 0]\<rparr>
   \<and> forEach (\<lambda>e n. Suc n) \<lparr>size_m = 0, chunks = [replicate 4294967296 (0::nat)]\<rparr> 0
       = 4294967296
   \<and> unat (size_cv \<lparr>size_m = 0, chunks = [replicate 4294967296 (0::nat)]\<rparr>) = 0"
  by (simp add: wide_wrapped size_cv_def forEach_concat fold_count)

text \<open>
  C6. At a chunk size of \<open>2^32\<close>, after \<open>2^32\<close> calls of \<open>add\<close>, the next call returns
  the index 0, which is not the number of elements stored before it; \<open>operator[]\<close> finds
  an element at index 0, and 0 is not below \<open>size()\<close>. The counter has wrapped, because
  the guard of \<open>addChunk\<close> did not abort.
\<close>

theorem add_index_wraps:
  "add_all 4294967296 (replicate 4294967296 (7::nat)) \<lparr>size_m = 0, chunks = [[]]\<rparr>
       = Inr \<lparr>size_m = 0, chunks = [replicate 4294967296 7]\<rparr>
   \<and> add 4294967296 (7::nat) \<lparr>size_m = 0, chunks = [replicate 4294967296 7]\<rparr>
       = Inr (\<lparr>size_m = 1, chunks = [replicate 4294967296 7, [7]]\<rparr>, (1, 0), 0)
   \<and> get 4294967296 \<lparr>size_m = 0, chunks = [replicate 4294967296 (7::nat)]\<rparr> 0 = Inr 7
   \<and> \<not> 0 < size_cv \<lparr>size_m = 0, chunks = [replicate 4294967296 (7::nat)]\<rparr>"
  by (simp add: wide_wrapped size_cv_def add_eq get_eq)

text \<open>
  C10. At a chunk size of \<open>2^32\<close>, after \<open>2^32\<close> calls of \<open>add\<close>, the chunk lengths add
  up to \<open>2^32\<close> and the counter is 0: the last part of the invariant is lost, because the
  guard of \<open>addChunk\<close> did not abort and the counter has wrapped.
\<close>

theorem invariant_breaks:
  "add_all 4294967296 (replicate 4294967296 (0::nat)) \<lparr>size_m = 0, chunks = [[]]\<rparr>
       = Inr \<lparr>size_m = 0, chunks = [replicate 4294967296 0]\<rparr>
   \<and> sum_list (map length (chunks \<lparr>size_m = 0, chunks = [replicate 4294967296 (0::nat)]\<rparr>))
       = 4294967296
   \<and> unat (size_m \<lparr>size_m = 0, chunks = [replicate 4294967296 (0::nat)]\<rparr>) = 0"
  by (simp add: wide_wrapped)

end
